theory Spec2Isabelle
  imports Complex_Main
begin

section \<open>Python values and failures\<close>

text \<open>
  The module \<^verbatim>\<open>color/lightness.py\<close> is Python 2 code (it imports \<^verbatim>\<open>unicode_literals\<close>
  from \<^verbatim>\<open>__future__\<close>) working on floats. It is embedded twice. The first embedding is over
  the real numbers: each function computes its formula in exact arithmetic, which is what the
  module computes up to rounding and overflow. The second embedding, further down, is on
  IEEE 754 doubles, and settles what rounding and overflow decide. Every exception the
  arithmetic of the module can raise on floats is a value of \<open>py_error\<close>, and a function that
  can raise returns \<open>py_error + 'a\<close> with \<open>Inl\<close> for the exception.
\<close>

datatype py_error = ValueError | ZeroDivisionError | TypeError | IndexError | OverflowError

type_synonym 'a result = "py_error + 'a"

text \<open>
  Over the reals: \<^verbatim>\<open>x ** y\<close> on floats, for the exponents the module uses with it (\<^verbatim>\<open>0.426\<close>,
  \<^verbatim>\<open>0.343\<close> and \<^verbatim>\<open>1. / 3.\<close>: positive and not integral). Python 2 raises
  \<^verbatim>\<open>ValueError\<close> for a negative base, and \<^verbatim>\<open>0.0 ** y\<close> is \<^verbatim>\<open>0.0\<close>.
\<close>

definition float_pow :: "real \<Rightarrow> real \<Rightarrow> real result" where
  "float_pow x y = (if x < 0 then Inl ValueError else Inr (x powr y))"

text \<open>\<^verbatim>\<open>math.sqrt\<close> raises \<^verbatim>\<open>ValueError\<close> (math domain error) below zero.\<close>

definition math_sqrt :: "real \<Rightarrow> real result" where
  "math_sqrt x = (if x < 0 then Inl ValueError else Inr (sqrt x))"

text \<open>Float division raises \<^verbatim>\<open>ZeroDivisionError\<close> on a zero divisor.\<close>

definition float_div :: "real \<Rightarrow> real \<Rightarrow> real result" where
  "float_div x y = (if y = 0 then Inl ZeroDivisionError else Inr (x / y))"

section \<open>The knee constants\<close>

definition CIE_E :: real where
  "CIE_E = 216 / 24389"

definition CIE_K :: real where
  "CIE_K = 24389 / 27"

section \<open>Luminance from Munsell value and from lightness\<close>

definition luminance_1943 :: "real \<Rightarrow> real" where
  "luminance_1943 V =
     1.2219 * V - 0.23111 * (V * V) + 0.23951 * V ^ 3 - 0.021009 * V ^ 4 + 0.0008404 * V ^ 5"


section \<open>Munsell value from luminance\<close>

definition munsell_value_1920 :: "real \<Rightarrow> real result" where
  "munsell_value_1920 Y =
     (case math_sqrt (Y / 100) of Inl e \<Rightarrow> Inl e | Inr s \<Rightarrow> Inr (10 * s))"

definition munsell_value_1933 :: "real \<Rightarrow> real result" where
  "munsell_value_1933 Y = math_sqrt (1.4742 * Y - 0.004743 * (Y * Y))"

definition munsell_value_1943 :: "real \<Rightarrow> real result" where
  "munsell_value_1943 Y =
     (case float_pow Y 0.426 of Inl e \<Rightarrow> Inl e | Inr p \<Rightarrow> Inr (1.4 * p))"

definition munsell_value_1944 :: "real \<Rightarrow> real result" where
  "munsell_value_1944 Y =
     (case float_pow Y 0.343 of Inl e \<Rightarrow> Inl e | Inr p \<Rightarrow> Inr (2.357 * p - 1.52))"

definition munsell_value_1955 :: "real \<Rightarrow> real result" where
  "munsell_value_1955 Y =
     (case float_pow Y (1 / 3) of Inl e \<Rightarrow> Inl e | Inr p \<Rightarrow> Inr (2.468 * p - 1.636))"

section \<open>Lightness from luminance\<close>

definition lightness_1958 :: "real \<Rightarrow> real result" where
  "lightness_1958 Y =
     (case float_pow Y (1 / 3) of Inl e \<Rightarrow> Inl e | Inr p \<Rightarrow> Inr (25.29 * p - 18.38))"

text \<open>
  \<^verbatim>\<open>lightness_1964\<close> writes to the module's logger before it computes. The log is
  modelled as the list of messages the call emits, returned beside the outcome.
\<close>

definition W_star_warning :: string where
  "W_star_warning =
     ''!> color.lightness | 'W*' lightness calculation is only applicable for 1% < 'Y' < 98%, unpredictable results may occur!''"

definition lightness_1964 :: "real \<Rightarrow> string list \<times> real result" where
  "lightness_1964 Y =
     (let logged = (if \<not> (1 < Y \<and> Y < 98) then [W_star_warning] else [])
      in (logged,
          case float_pow Y (1 / 3) of Inl e \<Rightarrow> Inl e | Inr p \<Rightarrow> Inr (25 * p - 17)))"

definition lightness_1976 :: "real \<Rightarrow> real \<Rightarrow> real result" where
  "lightness_1976 Y Yn =
     (case float_div Y Yn of
        Inl e \<Rightarrow> Inl e
      | Inr ratio \<Rightarrow>
          if ratio \<le> CIE_E then Inr (CIE_K * ratio)
          else (case float_pow ratio (1 / 3) of
                  Inl e \<Rightarrow> Inl e
                | Inr p \<Rightarrow> Inr (116 * p - 16)))"

section \<open>Dispatch by method name\<close>

text \<open>
  The two tables are dictionaries from a method's display name to its function. The entry
  of \<^verbatim>\<open>"Lightness 1976"\<close> is \<^verbatim>\<open>lightness_1976\<close> itself, which a call with the one
  argument \<open>Y\<close> runs with its default \<^verbatim>\<open>Yn=100.\<close>; the functions that write no log
  emit the empty list.
\<close>

definition MUNSELL_VALUE_FUNCTIONS :: "string \<rightharpoonup> (real \<Rightarrow> real result)" where
  "MUNSELL_VALUE_FUNCTIONS =
     map_of [(''Munsell Value 1920'', munsell_value_1920),
             (''Munsell Value 1933'', munsell_value_1933),
             (''Munsell Value 1943'', munsell_value_1943),
             (''Munsell Value 1944'', munsell_value_1944),
             (''Munsell Value 1955'', munsell_value_1955)]"

definition LIGHTNESS_FUNCTIONS :: "string \<rightharpoonup> (real \<Rightarrow> string list \<times> real result)" where
  "LIGHTNESS_FUNCTIONS =
     map_of [(''Lightness 1958'', \<lambda>Y. ([], lightness_1958 Y)),
             (''Lightness 1964'', lightness_1964),
             (''Lightness 1976'', \<lambda>Y. ([], lightness_1976 Y 100))]"

text \<open>
  \<^verbatim>\<open>dict.get(method)\<close> returns \<^verbatim>\<open>None\<close> for a key that is not in the dictionary, and
  calling \<^verbatim>\<open>None\<close> raises \<^verbatim>\<open>TypeError\<close>.
\<close>

definition get_munsell_value :: "real \<Rightarrow> string \<Rightarrow> real result" where
  "get_munsell_value Y method =
     (case MUNSELL_VALUE_FUNCTIONS method of
        None \<Rightarrow> Inl TypeError
      | Some f \<Rightarrow> f Y)"

text \<open>
  \<^verbatim>\<open>get_lightness\<close> is defined twice in the module, with the same body; \<open>Yn\<close> is
  \<^verbatim>\<open>None\<close> or a float.
\<close>

definition get_lightness :: "real \<Rightarrow> real option \<Rightarrow> string \<Rightarrow> string list \<times> real result" where
  "get_lightness Y Yn method =
     (case Yn of
        None \<Rightarrow>
          (case LIGHTNESS_FUNCTIONS method of
             None \<Rightarrow> ([], Inl TypeError)
           | Some f \<Rightarrow> f Y)
      | Some white \<Rightarrow> ([], lightness_1976 Y white))"

section \<open>Luminance from primaries and whitepoint\<close>

text \<open>
  A matrix is the list of its rows, \<^verbatim>\<open>numpy.ravel\<close> is \<open>concat\<close> (row-major) and the
  slice \<^verbatim>\<open>[3:6]\<close> is \<open>take 3 (drop 3 xs)\<close>. The function
  \<^verbatim>\<open>color.derivation.get_normalized_primary_matrix\<close> is not part of this module: it is
  the parameter \<open>derive\<close>, which returns a matrix or raises. Python's conversion of a float
  to text is the parameter \<open>fmt\<close>.
\<close>

definition Y_row :: "real list list \<Rightarrow> real list" where
  "Y_row M = take 3 (drop 3 (concat M))"

text \<open>
  \<^verbatim>\<open>str.format\<close> raises \<^verbatim>\<open>IndexError\<close> when fewer than three coefficients are passed.
\<close>

definition get_luminance_equation ::
  "(real \<Rightarrow> string) \<Rightarrow> ('p \<Rightarrow> 'w \<Rightarrow> real list list result) \<Rightarrow> 'p \<Rightarrow> 'w \<Rightarrow> string result" where
  "get_luminance_equation fmt derive primaries whitepoint =
     (case derive primaries whitepoint of
        Inl e \<Rightarrow> Inl e
      | Inr M \<Rightarrow>
          (case Y_row M of
             a # b # c # _ \<Rightarrow>
               Inr (''Y = '' @ fmt a @ ''(R) + '' @ fmt b @ ''(G) + '' @ fmt c @ ''(B)'')
           | _ \<Rightarrow> Inl IndexError))"

text \<open>
  Unpacking into three names raises \<^verbatim>\<open>ValueError\<close> unless there are exactly three
  values; \<open>RGB\<close> is unpacked before the matrix is derived.
\<close>

definition get_luminance ::
  "('p \<Rightarrow> 'w \<Rightarrow> real list list result) \<Rightarrow> real list list \<Rightarrow> 'p \<Rightarrow> 'w \<Rightarrow> real result" where
  "get_luminance derive RGB primaries whitepoint =
     (case concat RGB of
        [R, G, B] \<Rightarrow>
          (case derive primaries whitepoint of
             Inl e \<Rightarrow> Inl e
           | Inr M \<Rightarrow>
               (case Y_row M of
                  [X, Y, Z] \<Rightarrow> Inr (X * R + Y * G + Z * B)
                | _ \<Rightarrow> Inl ValueError))
      | _ \<Rightarrow> Inl ValueError)"

section \<open>The same arithmetic on IEEE 754 doubles\<close>

text \<open>
  A Python float is an IEEE 754 binary64 number. \<open>Finite r\<close> holds a real \<open>r\<close> that is a
  double; signed zeros are not distinguished. \<open>round_double\<close> rounds an exact result to the
  nearest double, ties to the even mantissa: the spacing of the doubles around \<open>x\<close> is
  \<open>2\<close> to the power \<open>ulp_exponent x\<close> (52 below the exponent of \<open>x\<close>, and \<open>-1074\<close> for the
  subnormal numbers), and a magnitude of \<open>2^1024 - 2^970\<close> or more rounds to an infinity.
\<close>

datatype double = Finite real | PosInf | NegInf | NaN

definition round_half_even :: "real \<Rightarrow> int" where
  "round_half_even x =
     (let n = \<lfloor>x\<rfloor>; d = x - of_int n
      in if d < 1 / 2 then n else if 1 / 2 < d then n + 1 else if even n then n else n + 1)"

definition ulp_exponent :: "real \<Rightarrow> int" where
  "ulp_exponent x = max \<lfloor>log 2 \<bar>x\<bar>\<rfloor> (- 1022) - 52"

definition round_double :: "real \<Rightarrow> double" where
  "round_double x =
     (if 2 ^ 1024 - 2 ^ 970 \<le> \<bar>x\<bar> then (if 0 < x then PosInf else NegInf)
      else if x = 0 then Finite 0
      else (let u = 2 powi ulp_exponent x in Finite (u * of_int (round_half_even (x / u)))))"

text \<open>
  \<^verbatim>\<open>+\<close>, \<^verbatim>\<open>-\<close> and \<^verbatim>\<open>*\<close> return the correctly rounded result and raise nothing.
\<close>

fun neg_double :: "double \<Rightarrow> double" where
  "neg_double (Finite a) = Finite (- a)"
| "neg_double PosInf = NegInf"
| "neg_double NegInf = PosInf"
| "neg_double NaN = NaN"

fun add_double :: "double \<Rightarrow> double \<Rightarrow> double" where
  "add_double (Finite a) (Finite b) = round_double (a + b)"
| "add_double NaN _ = NaN"
| "add_double _ NaN = NaN"
| "add_double PosInf NegInf = NaN"
| "add_double NegInf PosInf = NaN"
| "add_double PosInf _ = PosInf"
| "add_double _ PosInf = PosInf"
| "add_double NegInf _ = NegInf"
| "add_double _ NegInf = NegInf"

definition sub_double :: "double \<Rightarrow> double \<Rightarrow> double" where
  "sub_double a b = add_double a (neg_double b)"

fun mul_double :: "double \<Rightarrow> double \<Rightarrow> double" where
  "mul_double (Finite a) (Finite b) = round_double (a * b)"
| "mul_double NaN _ = NaN"
| "mul_double _ NaN = NaN"
| "mul_double (Finite a) i = (if a = 0 then NaN else if 0 < a then i else neg_double i)"
| "mul_double i (Finite b) = (if b = 0 then NaN else if 0 < b then i else neg_double i)"
| "mul_double PosInf i = i"
| "mul_double NegInf i = neg_double i"




text \<open>\<^verbatim>\<open>math.sqrt\<close>: the correctly rounded square root.\<close>

definition sqrt_double :: "double \<Rightarrow> double result" where
  "sqrt_double x =
     (case x of
        Finite a \<Rightarrow> if a < 0 then Inl ValueError else Inr (round_double (sqrt a))
      | PosInf \<Rightarrow> Inr PosInf
      | NegInf \<Rightarrow> Inl ValueError
      | NaN \<Rightarrow> Inr NaN)"








text \<open>
  \<^verbatim>\<open>munsell_value_1933\<close> on doubles; \<open>quadratic_1933_double\<close> is the argument of its
  square root, \<^verbatim>\<open>1.4742 * Y - 0.004743 * (Y * Y)\<close>, with the two literals rounded to
  doubles.
\<close>

definition quadratic_1933_double :: "double \<Rightarrow> double" where
  "quadratic_1933_double Y =
     sub_double (mul_double (round_double 1.4742) Y)
       (mul_double (round_double 0.004743) (mul_double Y Y))"

definition munsell_value_1933_double :: "double \<Rightarrow> double result" where
  "munsell_value_1933_double Y = sqrt_double (quadratic_1933_double Y)"

section \<open>Facts about powers\<close>

lemma cube_root_of_cube:
  fixes a :: real
  assumes "0 \<le> a"
  shows "(a ^ 3) powr (1 / 3) = a"
proof (cases "a = 0")
  case True
  then show ?thesis by simp
next
  case False
  with assms have "0 < a" by simp
  then have "(a ^ 3) powr (1 / 3) = (a powr 3) powr (1 / 3)"
    by simp
  also have "\<dots> = a powr 1"
    by (simp add: powr_powr)
  finally show ?thesis using \<open>0 < a\<close> by simp
qed

lemma CIE_E_cube: "CIE_E = (6 / 29) ^ 3"
  by (simp add: CIE_E_def power3_eq_cube)

lemma CIE_E_cube_root: "CIE_E powr (1 / 3) = 6 / 29"
  unfolding CIE_E_cube by (rule cube_root_of_cube) simp

section \<open>Dispatch through the tables\<close>

lemma lightness_keys:
  "LIGHTNESS_FUNCTIONS ''Lightness 1958'' = Some (\<lambda>Y. ([], lightness_1958 Y))"
  "LIGHTNESS_FUNCTIONS ''Lightness 1964'' = Some lightness_1964"
  "LIGHTNESS_FUNCTIONS ''Lightness 1976'' = Some (\<lambda>Y. ([], lightness_1976 Y 100))"
  by (simp_all add: LIGHTNESS_FUNCTIONS_def)

text \<open>
  C1. For every luminance \<open>Y\<close> and every method string: with \<open>Yn\<close> equal to \<^verbatim>\<open>None\<close>,
  \<open>get_lightness\<close> applies to \<open>Y\<close> the function registered in \<open>LIGHTNESS_FUNCTIONS\<close>
  under the method passed, whichever key that is (an unregistered method raises); with any
  other \<open>Yn\<close> it returns \<open>lightness_1976 Y Yn\<close> and the method is ignored.
\<close>

theorem get_lightness_dispatch:
  "(\<forall>f. LIGHTNESS_FUNCTIONS method = Some f \<longrightarrow> get_lightness Y None method = f Y)
   \<and> get_lightness Y None ''Lightness 1958'' = ([], lightness_1958 Y)
   \<and> get_lightness Y None ''Lightness 1964'' = lightness_1964 Y
   \<and> get_lightness Y None ''Lightness 1976'' = ([], lightness_1976 Y 100)
   \<and> (LIGHTNESS_FUNCTIONS method = None \<longrightarrow> get_lightness Y None method = ([], Inl TypeError))
   \<and> get_lightness Y (Some Yn) method = ([], lightness_1976 Y Yn)"
  by (simp add: get_lightness_def lightness_keys)

theorem get_lightness_dispatch_witness:
  "LIGHTNESS_FUNCTIONS ''Lightness 1964'' = Some lightness_1964
   \<and> get_lightness 10.08 None ''Lightness 1964'' = lightness_1964 10.08
   \<and> LIGHTNESS_FUNCTIONS ''Lightness 1999'' = None
   \<and> get_lightness 10.08 None ''Lightness 1999'' = ([], Inl TypeError)
   \<and> get_lightness 10.08 (Some 100) ''Lightness 1964'' = ([], lightness_1976 10.08 100)"
proof -
  have k: "LIGHTNESS_FUNCTIONS ''Lightness 1964'' = Some lightness_1964"
    by (simp add: LIGHTNESS_FUNCTIONS_def)
  have m: "LIGHTNESS_FUNCTIONS ''Lightness 1999'' = None"
    by (simp add: LIGHTNESS_FUNCTIONS_def)
  from get_lightness_dispatch [of "''Lightness 1964''" "10.08" 100] k
  have a: "get_lightness 10.08 None ''Lightness 1964'' = lightness_1964 10.08"
    and c: "get_lightness 10.08 (Some 100) ''Lightness 1964'' = ([], lightness_1976 10.08 100)"
    by blast+
  from get_lightness_dispatch [of "''Lightness 1999''" "10.08" 100] m
  have b: "get_lightness 10.08 None ''Lightness 1999'' = ([], Inl TypeError)"
    by blast
  from k m a b c show ?thesis by blast
qed

lemma munsell_keys:
  "MUNSELL_VALUE_FUNCTIONS ''Munsell Value 1920'' = Some munsell_value_1920"
  "MUNSELL_VALUE_FUNCTIONS ''Munsell Value 1933'' = Some munsell_value_1933"
  "MUNSELL_VALUE_FUNCTIONS ''Munsell Value 1943'' = Some munsell_value_1943"
  "MUNSELL_VALUE_FUNCTIONS ''Munsell Value 1944'' = Some munsell_value_1944"
  "MUNSELL_VALUE_FUNCTIONS ''Munsell Value 1955'' = Some munsell_value_1955"
  by (simp_all add: MUNSELL_VALUE_FUNCTIONS_def)

lemma munsell_dom:
  "dom MUNSELL_VALUE_FUNCTIONS =
     {''Munsell Value 1920'', ''Munsell Value 1933'', ''Munsell Value 1943'',
      ''Munsell Value 1944'', ''Munsell Value 1955''}"
  by (auto simp add: MUNSELL_VALUE_FUNCTIONS_def split: if_splits)

text \<open>
  C2. For every luminance \<open>Y\<close>, \<open>get_munsell_value\<close> with a method that is not a key of
  \<open>MUNSELL_VALUE_FUNCTIONS\<close> fails: the missed lookup reaches the caller as an exception
  (the \<^verbatim>\<open>TypeError\<close> of calling the \<^verbatim>\<open>None\<close> that \<^verbatim>\<open>dict.get\<close> returned), and no
  default formula is applied. With a registered key it returns that formula applied to \<open>Y\<close>.
\<close>

theorem get_munsell_value_dispatch:
  "(method \<notin> dom MUNSELL_VALUE_FUNCTIONS \<longrightarrow> get_munsell_value Y method = Inl TypeError)
   \<and> (\<forall>f. MUNSELL_VALUE_FUNCTIONS method = Some f \<longrightarrow> get_munsell_value Y method = f Y)
   \<and> get_munsell_value Y ''Munsell Value 1920'' = munsell_value_1920 Y
   \<and> get_munsell_value Y ''Munsell Value 1933'' = munsell_value_1933 Y
   \<and> get_munsell_value Y ''Munsell Value 1943'' = munsell_value_1943 Y
   \<and> get_munsell_value Y ''Munsell Value 1944'' = munsell_value_1944 Y
   \<and> get_munsell_value Y ''Munsell Value 1955'' = munsell_value_1955 Y"
  by (auto simp add: get_munsell_value_def munsell_keys domIff)

theorem get_munsell_value_dispatch_witness:
  "''Munsell Value 1999'' \<notin> dom MUNSELL_VALUE_FUNCTIONS
   \<and> get_munsell_value 10.08 ''Munsell Value 1999'' = Inl TypeError
   \<and> MUNSELL_VALUE_FUNCTIONS ''Munsell Value 1955'' = Some munsell_value_1955
   \<and> get_munsell_value 10.08 ''Munsell Value 1955'' = munsell_value_1955 10.08"
proof -
  have m: "''Munsell Value 1999'' \<notin> dom MUNSELL_VALUE_FUNCTIONS"
    by (simp add: munsell_dom)
  have k: "MUNSELL_VALUE_FUNCTIONS ''Munsell Value 1955'' = Some munsell_value_1955"
    by (simp add: MUNSELL_VALUE_FUNCTIONS_def)
  from get_munsell_value_dispatch [of "''Munsell Value 1999''" "10.08"] m
  have a: "get_munsell_value 10.08 ''Munsell Value 1999'' = Inl TypeError"
    by blast
  from get_munsell_value_dispatch [of "''Munsell Value 1955''" "10.08"] k
  have b: "get_munsell_value 10.08 ''Munsell Value 1955'' = munsell_value_1955 10.08"
    by blast
  from m k a b show ?thesis by blast
qed


section \<open>The luminance row of the primary matrix\<close>

text \<open>
  C9. For every RGB triplet and every primaries and whitepoint whose normalized primary
  matrix is the 3 by 3 matrix \<open>M\<close>, \<open>get_luminance\<close> returns \<open>a * R + b * G + c * B\<close>
  where \<open>a\<close>, \<open>b\<close>, \<open>c\<close> are the elements of the row-major flattening of \<open>M\<close> at the
  positions 4, 5 and 6 (the indices 3, 4 and 5 counted from zero), its second row; they are
  the three coefficients that \<open>get_luminance_equation\<close> writes into its text.
\<close>

theorem get_luminance_Y_row:
  assumes M: "derive primaries whitepoint =
                Inr [[m11, m12, m13], [m21, m22, m23], [m31, m32, m33]]"
    and RGB: "concat RGB = [R, G, B]"
  shows "get_luminance derive RGB primaries whitepoint = Inr (m21 * R + m22 * G + m23 * B)
       \<and> get_luminance_equation fmt derive primaries whitepoint =
           Inr (''Y = '' @ fmt m21 @ ''(R) + '' @ fmt m22 @ ''(G) + '' @ fmt m23 @ ''(B)'')
       \<and> [m21, m22, m23] =
           map ((!) (concat [[m11, m12, m13], [m21, m22, m23], [m31, m32, m33]])) [3, 4, 5]"
  by (simp add: get_luminance_def get_luminance_equation_def Y_row_def M RGB)

theorem get_luminance_Y_row_witness:
  "get_luminance (\<lambda>p w. Inr [[1, 2, 3], [4, 5, 6], [7, 8, 9]]) [[10], [20], [30]] () () = Inr 320
   \<and> get_luminance_equation (\<lambda>x. if x = 4 then ''4.0'' else if x = 5 then ''5.0'' else ''6.0'')
        (\<lambda>p w. Inr [[1, 2, 3], [4, 5, 6], [7, 8, 9]]) () () =
        Inr ''Y = 4.0(R) + 5.0(G) + 6.0(B)''"
  using get_luminance_Y_row
    [where derive = "\<lambda>p w. Inr [[1, 2, 3], [4, 5, 6], [7, 8, 9]]"
       and primaries = "()" and whitepoint = "()"
       and ?m11.0 = 1 and ?m12.0 = 2 and ?m13.0 = 3
       and ?m21.0 = 4 and ?m22.0 = 5 and ?m23.0 = 6
       and ?m31.0 = 7 and ?m32.0 = 8 and ?m33.0 = 9
       and RGB = "[[10], [20], [30]]" and R = 10 and G = 20 and B = 30
       and fmt = "\<lambda>x. if x = 4 then ''4.0'' else if x = 5 then ''5.0'' else ''6.0''"]
  by simp

section \<open>The advisory warning of Wyszecki's formula\<close>

text \<open>
  C7, as stated, at \<open>Y = -1\<close>: the input is outside the open interval (1, 98), the warning
  is emitted, and then the power raises \<^verbatim>\<open>ValueError\<close>: no value is returned.
\<close>

theorem lightness_1964_negative_raises:
  "\<not> (1 < (- 1 :: real) \<and> (- 1 :: real) < 98)
   \<and> lightness_1964 (- 1) = ([W_star_warning], Inl ValueError)"
  by (simp add: lightness_1964_def float_pow_def)

text \<open>
  C7, amended. For every \<open>Y \<ge> 0\<close> outside the open interval (1, 98), \<open>lightness_1964\<close>
  emits the advisory warning, once, and returns \<open>25 * Y^(1/3) - 17\<close>.
\<close>

theorem lightness_1964_warns_and_returns:
  assumes "0 \<le> Y" and "\<not> (1 < Y \<and> Y < 98)"
  shows "lightness_1964 Y = ([W_star_warning], Inr (25 * Y powr (1 / 3) - 17))"
  using assms by (simp add: lightness_1964_def float_pow_def)

theorem lightness_1964_warns_and_returns_witness:
  "(0::real) \<le> 0 \<and> \<not> (1 < (0::real) \<and> (0::real) < 98)
   \<and> lightness_1964 0 = ([W_star_warning], Inr (- 17))"
proof -
  have a: "(0::real) \<le> 0" by simp
  have b: "\<not> (1 < (0::real) \<and> (0::real) < 98)" by simp
  from lightness_1964_warns_and_returns [OF a b] a b show ?thesis by simp
qed

section \<open>The closed forms of the Munsell value functions\<close>

lemma quadratic_1933_nonneg:
  fixes Y :: real
  assumes "0 \<le> Y" "Y \<le> 100"
  shows "0 \<le> 1.4742 * Y - 0.004743 * (Y * Y)"
proof -
  have "1.4742 * Y - 0.004743 * (Y * Y) = Y * (1.4742 - 0.004743 * Y)"
    by (simp add: algebra_simps)
  moreover have "0 \<le> 1.4742 - 0.004743 * Y"
    using assms by simp
  ultimately show ?thesis
    using assms by simp
qed

text \<open>
  C5. For every \<open>Y\<close> in [0, 100] the five Munsell value functions return, without raising,
  the tabulated closed forms.
\<close>

theorem munsell_value_closed_forms:
  assumes "0 \<le> Y" and "Y \<le> 100"
  shows "munsell_value_1920 Y = Inr (10 * sqrt (Y / 100))
       \<and> munsell_value_1933 Y = Inr (sqrt (1.4742 * Y - 0.004743 * Y\<^sup>2))
       \<and> munsell_value_1943 Y = Inr (1.4 * Y powr 0.426)
       \<and> munsell_value_1944 Y = Inr (2.357 * Y powr 0.343 - 1.52)
       \<and> munsell_value_1955 Y = Inr (2.468 * Y powr (1 / 3) - 1.636)"
proof -
  have "\<not> 1.4742 * Y - 0.004743 * (Y * Y) < 0"
    using quadratic_1933_nonneg [OF assms] by simp
  then have "munsell_value_1933 Y = Inr (sqrt (1.4742 * Y - 0.004743 * Y\<^sup>2))"
    by (simp add: munsell_value_1933_def math_sqrt_def power2_eq_square)
  moreover have "munsell_value_1920 Y = Inr (10 * sqrt (Y / 100))"
    using assms by (simp add: munsell_value_1920_def math_sqrt_def)
  moreover have "munsell_value_1943 Y = Inr (1.4 * Y powr 0.426)"
    using assms by (simp add: munsell_value_1943_def float_pow_def)
  moreover have "munsell_value_1944 Y = Inr (2.357 * Y powr 0.343 - 1.52)"
    using assms by (simp add: munsell_value_1944_def float_pow_def)
  moreover have "munsell_value_1955 Y = Inr (2.468 * Y powr (1 / 3) - 1.636)"
    using assms by (simp add: munsell_value_1955_def float_pow_def)
  ultimately show ?thesis by simp
qed

theorem munsell_value_closed_forms_witness:
  "(0::real) \<le> 100 \<and> (100::real) \<le> 100
   \<and> munsell_value_1920 100 = Inr 10
   \<and> munsell_value_1933 100 = Inr (sqrt 99.99)
   \<and> munsell_value_1943 100 = Inr (1.4 * 100 powr 0.426)
   \<and> munsell_value_1944 100 = Inr (2.357 * 100 powr 0.343 - 1.52)
   \<and> munsell_value_1955 100 = Inr (2.468 * 100 powr (1 / 3) - 1.636)"
proof -
  have a: "(0::real) \<le> 100" and b: "(100::real) \<le> 100" by simp_all
  from munsell_value_closed_forms [OF a b] show ?thesis by simp
qed

section \<open>Luminance 1976 inverts lightness 1976\<close>


lemma power_branch_above_knee:
  fixes r :: real
  assumes "CIE_E < r"
  shows "CIE_K * CIE_E < 116 * r powr (1 / 3) - 16"
proof -
  have "0 \<le> CIE_E" by (simp add: CIE_E_def)
  with assms have "CIE_E powr (1 / 3) < r powr (1 / 3)"
    by (intro powr_less_mono2) simp_all
  then have "6 / 29 < r powr (1 / 3)"
    by (simp add: CIE_E_cube_root)
  moreover have "CIE_K * CIE_E = 8"
    by (simp add: CIE_K_def CIE_E_def)
  ultimately show ?thesis by simp
qed




section \<open>Monotonicity of the forward mappings\<close>

lemma quadratic_1933_increasing:
  fixes Y1 Y2 :: real
  assumes "0 \<le> Y1" "Y1 < Y2" "Y2 \<le> 100"
  shows "1.4742 * Y1 - 0.004743 * (Y1 * Y1) < 1.4742 * Y2 - 0.004743 * (Y2 * Y2)"
proof -
  have "Y2 * Y2 - Y1 * Y1 = (Y2 - Y1) * (Y2 + Y1)"
    by (simp add: algebra_simps)
  also have "\<dots> \<le> (Y2 - Y1) * 200"
    using assms by (intro mult_left_mono) simp_all
  finally have "Y2 * Y2 - Y1 * Y1 \<le> 200 * (Y2 - Y1)"
    by simp
  with assms show ?thesis by simp
qed

lemma scaled_power_increasing:
  fixes x y a c d :: real
  assumes "0 \<le> x" "x < y" "0 < a" "0 < c"
  shows "\<exists>V1 V2.
           (case float_pow x a of Inl e \<Rightarrow> Inl e | Inr p \<Rightarrow> Inr (c * p - d)) = Inr V1
         \<and> (case float_pow y a of Inl e \<Rightarrow> Inl e | Inr p \<Rightarrow> Inr (c * p - d)) = Inr V2
         \<and> V1 < V2"
proof -
  from assms have "x powr a < y powr a"
    by (intro powr_less_mono2) simp_all
  with \<open>0 < c\<close> have "c * x powr a - d < c * y powr a - d"
    by simp
  with assms show ?thesis
    by (simp add: float_pow_def)
qed

lemma munsell_value_1920_increasing:
  assumes "0 \<le> Y1" "Y1 < Y2"
  shows "\<exists>V1 V2. munsell_value_1920 Y1 = Inr V1 \<and> munsell_value_1920 Y2 = Inr V2 \<and> V1 < V2"
  using assms by (simp add: munsell_value_1920_def math_sqrt_def)

lemma munsell_value_1933_increasing:
  assumes "0 \<le> Y1" "Y1 < Y2" "Y2 \<le> 100"
  shows "\<exists>V1 V2. munsell_value_1933 Y1 = Inr V1 \<and> munsell_value_1933 Y2 = Inr V2 \<and> V1 < V2"
proof -
  let ?q = "\<lambda>Y::real. 1.4742 * Y - 0.004743 * (Y * Y)"
  have "0 \<le> ?q Y1"
    using assms by (intro quadratic_1933_nonneg) simp_all
  moreover have "0 \<le> ?q Y2"
    using assms by (intro quadratic_1933_nonneg) simp_all
  moreover have "sqrt (?q Y1) < sqrt (?q Y2)"
    using quadratic_1933_increasing [OF assms] by (simp only: real_sqrt_less_iff)
  ultimately show ?thesis
    unfolding munsell_value_1933_def math_sqrt_def by (simp only: not_less [symmetric] if_False) blast
qed

lemma munsell_value_1943_increasing:
  assumes "0 \<le> Y1" "Y1 < Y2"
  shows "\<exists>V1 V2. munsell_value_1943 Y1 = Inr V1 \<and> munsell_value_1943 Y2 = Inr V2 \<and> V1 < V2"
proof -
  from assms have "0 \<le> Y2" by simp
  with assms have vs:
    "munsell_value_1943 Y1 = Inr (1.4 * Y1 powr 0.426)"
    "munsell_value_1943 Y2 = Inr (1.4 * Y2 powr 0.426)"
    by (simp_all add: munsell_value_1943_def float_pow_def)
  from assms have "Y1 powr 0.426 < Y2 powr 0.426"
    by (intro powr_less_mono2) simp_all
  then have "1.4 * Y1 powr 0.426 < 1.4 * Y2 powr 0.426"
    by simp
  with vs show ?thesis by blast
qed

lemma munsell_value_1944_increasing:
  assumes "0 \<le> Y1" "Y1 < Y2"
  shows "\<exists>V1 V2. munsell_value_1944 Y1 = Inr V1 \<and> munsell_value_1944 Y2 = Inr V2 \<and> V1 < V2"
  unfolding munsell_value_1944_def
  using scaled_power_increasing [OF assms, of "0.343" "2.357" "1.52"] by simp

lemma munsell_value_1955_increasing:
  assumes "0 \<le> Y1" "Y1 < Y2"
  shows "\<exists>V1 V2. munsell_value_1955 Y1 = Inr V1 \<and> munsell_value_1955 Y2 = Inr V2 \<and> V1 < V2"
  unfolding munsell_value_1955_def
  using scaled_power_increasing [OF assms, of "1 / 3" "2.468" "1.636"] by simp

lemma lightness_1958_increasing:
  assumes "0 \<le> Y1" "Y1 < Y2"
  shows "\<exists>L1 L2. lightness_1958 Y1 = Inr L1 \<and> lightness_1958 Y2 = Inr L2 \<and> L1 < L2"
  unfolding lightness_1958_def
  using scaled_power_increasing [OF assms, of "1 / 3" "25.29" "18.38"] by simp

lemma lightness_1964_increasing:
  assumes "0 \<le> Y1" "Y1 < Y2"
  shows "\<exists>W1 W2. snd (lightness_1964 Y1) = Inr W1 \<and> snd (lightness_1964 Y2) = Inr W2 \<and> W1 < W2"
  unfolding lightness_1964_def Let_def snd_conv
  using scaled_power_increasing [OF assms, of "1 / 3" 25 17] by simp

lemma lightness_1976_of_ratio:
  assumes "0 \<le> Y" "0 < Yn"
  shows "lightness_1976 Y Yn =
           Inr (if Y / Yn \<le> CIE_E then CIE_K * (Y / Yn) else 116 * (Y / Yn) powr (1 / 3) - 16)"
proof -
  from assms have "\<not> Y / Yn < 0" by (simp add: not_less)
  with assms show ?thesis
    by (simp add: lightness_1976_def float_div_def float_pow_def)
qed

lemma knee_function_increasing:
  fixes r1 r2 :: real
  assumes "0 \<le> r1" "r1 < r2"
  shows "(if r1 \<le> CIE_E then CIE_K * r1 else 116 * r1 powr (1 / 3) - 16)
       < (if r2 \<le> CIE_E then CIE_K * r2 else 116 * r2 powr (1 / 3) - 16)"
proof -
  have K: "0 < CIE_K" by (simp add: CIE_K_def)
  show ?thesis
  proof (cases "r2 \<le> CIE_E")
    case True
    with assms have "r1 \<le> CIE_E" by simp
    moreover from assms K have "CIE_K * r1 < CIE_K * r2"
      by (intro mult_strict_left_mono)
    ultimately show ?thesis using True by simp
  next
    case False
    then have above: "CIE_E < r2" by simp
    show ?thesis
    proof (cases "r1 \<le> CIE_E")
      case True
      with K have "CIE_K * r1 \<le> CIE_K * CIE_E"
        by (intro mult_left_mono) simp_all
      also note power_branch_above_knee [OF above]
      finally show ?thesis using True False by simp
    next
      case low: False
      from assms have "r1 powr (1 / 3) < r2 powr (1 / 3)"
        by (intro powr_less_mono2) simp_all
      with low False show ?thesis by simp
    qed
  qed
qed

lemma lightness_1976_increasing:
  assumes "0 \<le> Y1" "Y1 < Y2" "0 < Yn"
  shows "\<exists>L1 L2. lightness_1976 Y1 Yn = Inr L1 \<and> lightness_1976 Y2 Yn = Inr L2 \<and> L1 < L2"
proof -
  from assms have "0 \<le> Y1 / Yn" by simp
  moreover from assms have "Y1 / Yn < Y2 / Yn"
    by (simp add: divide_strict_right_mono)
  ultimately have
    "(if Y1 / Yn \<le> CIE_E then CIE_K * (Y1 / Yn) else 116 * (Y1 / Yn) powr (1 / 3) - 16)
   < (if Y2 / Yn \<le> CIE_E then CIE_K * (Y2 / Yn) else 116 * (Y2 / Yn) powr (1 / 3) - 16)"
    by (rule knee_function_increasing)
  moreover from assms have "0 \<le> Y2" by simp
  note lightness_1976_of_ratio [OF \<open>0 \<le> Y1\<close> \<open>0 < Yn\<close>]
    lightness_1976_of_ratio [OF this \<open>0 < Yn\<close>]
  ultimately show ?thesis by blast
qed

text \<open>
  C10, amended. Over the reals, for all \<open>0 < Y1 < Y2 \<le> 100\<close>, each of the five Munsell
  value functions, \<open>lightness_1958\<close>, \<open>lightness_1964\<close> and, for any fixed \<open>Yn > 0\<close>,
  \<open>lightness_1976\<close> returns at \<open>Y1\<close> a strictly smaller value than at \<open>Y2\<close>; the quadratic
  under the square root of the 1933 formula is itself strictly increasing up to \<open>Y = 100\<close>.
\<close>

theorem forward_maps_strictly_increasing:
  assumes "0 < Y1" and "Y1 < Y2" and "Y2 \<le> 100" and "0 < Yn"
  shows "(\<exists>V1 V2. munsell_value_1920 Y1 = Inr V1 \<and> munsell_value_1920 Y2 = Inr V2 \<and> V1 < V2)
       \<and> (\<exists>V1 V2. munsell_value_1933 Y1 = Inr V1 \<and> munsell_value_1933 Y2 = Inr V2 \<and> V1 < V2)
       \<and> (\<exists>V1 V2. munsell_value_1943 Y1 = Inr V1 \<and> munsell_value_1943 Y2 = Inr V2 \<and> V1 < V2)
       \<and> (\<exists>V1 V2. munsell_value_1944 Y1 = Inr V1 \<and> munsell_value_1944 Y2 = Inr V2 \<and> V1 < V2)
       \<and> (\<exists>V1 V2. munsell_value_1955 Y1 = Inr V1 \<and> munsell_value_1955 Y2 = Inr V2 \<and> V1 < V2)
       \<and> (\<exists>L1 L2. lightness_1958 Y1 = Inr L1 \<and> lightness_1958 Y2 = Inr L2 \<and> L1 < L2)
       \<and> (\<exists>W1 W2. snd (lightness_1964 Y1) = Inr W1 \<and> snd (lightness_1964 Y2) = Inr W2 \<and> W1 < W2)
       \<and> (\<exists>L1 L2. lightness_1976 Y1 Yn = Inr L1 \<and> lightness_1976 Y2 Yn = Inr L2 \<and> L1 < L2)
       \<and> 1.4742 * Y1 - 0.004743 * Y1\<^sup>2 < 1.4742 * Y2 - 0.004743 * Y2\<^sup>2"
proof -
  from assms have nn: "0 \<le> Y1" by simp
  note lt = \<open>Y1 < Y2\<close>
  have "1.4742 * Y1 - 0.004743 * Y1\<^sup>2 < 1.4742 * Y2 - 0.004743 * Y2\<^sup>2"
    using quadratic_1933_increasing [OF nn lt \<open>Y2 \<le> 100\<close>] by (simp only: power2_eq_square)
  with munsell_value_1920_increasing [OF nn lt]
    munsell_value_1933_increasing [OF nn lt \<open>Y2 \<le> 100\<close>]
    munsell_value_1943_increasing [OF nn lt]
    munsell_value_1944_increasing [OF nn lt]
    munsell_value_1955_increasing [OF nn lt]
    lightness_1958_increasing [OF nn lt]
    lightness_1964_increasing [OF nn lt]
    lightness_1976_increasing [OF nn lt \<open>0 < Yn\<close>]
  show ?thesis by (intro conjI)
qed

theorem forward_maps_strictly_increasing_witness:
  "(0::real) < 1 \<and> (1::real) < 100 \<and> (100::real) \<le> 100 \<and> (0::real) < 100
   \<and> (\<exists>V1 V2. munsell_value_1920 1 = Inr V1 \<and> munsell_value_1920 100 = Inr V2 \<and> V1 < V2)
   \<and> (\<exists>V1 V2. munsell_value_1933 1 = Inr V1 \<and> munsell_value_1933 100 = Inr V2 \<and> V1 < V2)
   \<and> (\<exists>V1 V2. munsell_value_1943 1 = Inr V1 \<and> munsell_value_1943 100 = Inr V2 \<and> V1 < V2)
   \<and> (\<exists>V1 V2. munsell_value_1944 1 = Inr V1 \<and> munsell_value_1944 100 = Inr V2 \<and> V1 < V2)
   \<and> (\<exists>V1 V2. munsell_value_1955 1 = Inr V1 \<and> munsell_value_1955 100 = Inr V2 \<and> V1 < V2)
   \<and> (\<exists>L1 L2. lightness_1958 1 = Inr L1 \<and> lightness_1958 100 = Inr L2 \<and> L1 < L2)
   \<and> (\<exists>W1 W2. snd (lightness_1964 1) = Inr W1 \<and> snd (lightness_1964 100) = Inr W2 \<and> W1 < W2)
   \<and> (\<exists>L1 L2. lightness_1976 1 100 = Inr L1 \<and> lightness_1976 100 100 = Inr L2 \<and> L1 < L2)"
proof -
  have a: "(0::real) < 1" and b: "(1::real) < 100" and c: "(100::real) \<le> 100"
    and d: "(0::real) < 100"
    by simp_all
  from forward_maps_strictly_increasing [OF a b c d] a b c d show ?thesis
    by blast
qed

section \<open>Powers with rational exponents\<close>

lemma powr_ratio_power:
  fixes x :: real
  assumes "0 < x" "0 < q"
  shows "(x powr (real p / real q)) ^ q = x ^ p"
proof -
  have "(x powr (real p / real q)) ^ q = (x powr (real p / real q)) powr real q"
    using assms by (simp add: powr_realpow)
  also have "\<dots> = x powr real p"
    using assms by (simp add: powr_powr)
  also have "\<dots> = x ^ p"
    using assms by (simp add: powr_realpow)
  finally show ?thesis .
qed

lemma powr_ratio_greater:
  fixes x lo :: real
  assumes "0 < x" "0 < q" "lo ^ q < x ^ p"
  shows "lo < x powr (real p / real q)"
proof (rule ccontr)
  assume "\<not> lo < x powr (real p / real q)"
  then have "x powr (real p / real q) \<le> lo" by simp
  then have "(x powr (real p / real q)) ^ q \<le> lo ^ q"
    by (intro power_mono) simp_all
  with powr_ratio_power [OF assms(1,2), of p] assms(3) show False by simp
qed

lemma powr_ratio_less:
  fixes x hi :: real
  assumes "0 < x" "0 < q" "0 \<le> hi" "x ^ p < hi ^ q"
  shows "x powr (real p / real q) < hi"
proof (rule ccontr)
  assume "\<not> x powr (real p / real q) < hi"
  then have "hi \<le> x powr (real p / real q)" by simp
  with \<open>0 \<le> hi\<close> have "hi ^ q \<le> (x powr (real p / real q)) ^ q"
    by (intro power_mono)
  with powr_ratio_power [OF assms(1,2), of p] assms(4) show False by simp
qed

lemma powr_ratio_le:
  fixes x hi :: real
  assumes "0 < x" "0 < q" "0 \<le> hi" "x ^ p \<le> hi ^ q"
  shows "x powr (real p / real q) \<le> hi"
proof (rule ccontr)
  assume "\<not> x powr (real p / real q) \<le> hi"
  then have "hi < x powr (real p / real q)" by simp
  with \<open>0 \<le> hi\<close> \<open>0 < q\<close> have "hi ^ q < (x powr (real p / real q)) ^ q"
    by (intro power_strict_mono) simp_all
  with powr_ratio_power [OF assms(1,2), of p] assms(4) show False by simp
qed

lemma powr_ratio_ge:
  fixes x lo :: real
  assumes "0 < x" "0 < q" "lo ^ q \<le> x ^ p"
  shows "lo \<le> x powr (real p / real q)"
proof (rule ccontr)
  assume "\<not> lo \<le> x powr (real p / real q)"
  then have "x powr (real p / real q) < lo" by simp
  with \<open>0 < q\<close> have "(x powr (real p / real q)) ^ q < lo ^ q"
    by (intro power_strict_mono) simp_all
  with powr_ratio_power [OF assms(1,2), of p] assms(3) show False by simp
qed

text \<open>Powers with the exponents 500 and 213, bounded through short chains.\<close>

lemma power_500_le:
  fixes a :: real
  assumes "0 \<le> a" "a ^ 4 \<le> u1" "u1 ^ 5 \<le> u2" "u2 ^ 5 \<le> u3" "u3 ^ 5 \<le> u4"
  shows "a ^ 500 \<le> u4"
proof -
  have "(a ^ 4) ^ 5 \<le> u1 ^ 5"
    using assms by (intro power_mono) simp_all
  with assms have s2: "(a ^ 4) ^ 5 \<le> u2" by simp
  have "((a ^ 4) ^ 5) ^ 5 \<le> u2 ^ 5"
    using assms s2 by (intro power_mono) simp_all
  with assms have s3: "((a ^ 4) ^ 5) ^ 5 \<le> u3" by simp
  have "(((a ^ 4) ^ 5) ^ 5) ^ 5 \<le> u3 ^ 5"
    using assms s3 by (intro power_mono) simp_all
  with assms have "(((a ^ 4) ^ 5) ^ 5) ^ 5 \<le> u4" by simp
  moreover have "(((a ^ 4) ^ 5) ^ 5) ^ 5 = a ^ 500"
    by (simp add: power_mult [symmetric])
  ultimately show ?thesis by simp
qed

lemma power_500_ge:
  fixes a :: real
  assumes "0 \<le> l1" "0 \<le> l2" "0 \<le> l3"
    and "l1 \<le> a ^ 4" "l2 \<le> l1 ^ 5" "l3 \<le> l2 ^ 5" "l4 \<le> l3 ^ 5"
  shows "l4 \<le> a ^ 500"
proof -
  have "l1 ^ 5 \<le> (a ^ 4) ^ 5"
    using assms by (intro power_mono) simp_all
  with assms have s2: "l2 \<le> (a ^ 4) ^ 5" by simp
  have "l2 ^ 5 \<le> ((a ^ 4) ^ 5) ^ 5"
    using assms s2 by (intro power_mono) simp_all
  with assms have s3: "l3 \<le> ((a ^ 4) ^ 5) ^ 5" by simp
  have "l3 ^ 5 \<le> (((a ^ 4) ^ 5) ^ 5) ^ 5"
    using assms s3 by (intro power_mono) simp_all
  with assms have "l4 \<le> (((a ^ 4) ^ 5) ^ 5) ^ 5" by simp
  moreover have "(((a ^ 4) ^ 5) ^ 5) ^ 5 = a ^ 500"
    by (simp add: power_mult [symmetric])
  ultimately show ?thesis by simp
qed

lemma power_213_split:
  fixes x :: real
  shows "x ^ 213 = ((x ^ 3) ^ 8) ^ 8 * (x ^ 3) ^ 7"
  by (simp add: power_mult [symmetric] power_add [symmetric])

lemma power_213_ge:
  fixes x :: real
  assumes "0 \<le> c1" "0 \<le> c2" "0 \<le> c3" "0 \<le> c4"
    and "c1 \<le> x ^ 3" "c2 \<le> c1 ^ 8" "c3 \<le> c2 ^ 8" "c4 \<le> c1 ^ 7"
  shows "c3 * c4 \<le> x ^ 213"
proof -
  have "c1 ^ 8 \<le> (x ^ 3) ^ 8"
    using assms by (intro power_mono) simp_all
  with assms have s2: "c2 \<le> (x ^ 3) ^ 8" by simp
  have "c2 ^ 8 \<le> ((x ^ 3) ^ 8) ^ 8"
    using assms s2 by (intro power_mono) simp_all
  with assms have s3: "c3 \<le> ((x ^ 3) ^ 8) ^ 8" by simp
  have "c1 ^ 7 \<le> (x ^ 3) ^ 7"
    using assms by (intro power_mono) simp_all
  with assms have s4: "c4 \<le> (x ^ 3) ^ 7" by simp
  from s3 s4 assms have "c3 * c4 \<le> ((x ^ 3) ^ 8) ^ 8 * (x ^ 3) ^ 7"
    by (intro mult_mono) simp_all
  then show ?thesis by (simp only: power_213_split)
qed

lemma power_213_le:
  fixes x :: real
  assumes "0 \<le> x"
    and "x ^ 3 \<le> d1" "d1 ^ 8 \<le> d2" "d2 ^ 8 \<le> d3" "d1 ^ 7 \<le> d4"
  shows "x ^ 213 \<le> d3 * d4"
proof -
  have d1: "0 \<le> d1" using assms by (meson order_trans zero_le_power)
  have "(x ^ 3) ^ 8 \<le> d1 ^ 8"
    using assms by (intro power_mono) simp_all
  with assms have s2: "(x ^ 3) ^ 8 \<le> d2" by simp
  have "((x ^ 3) ^ 8) ^ 8 \<le> d2 ^ 8"
    using assms s2 by (intro power_mono) simp_all
  with assms have s3: "((x ^ 3) ^ 8) ^ 8 \<le> d3" by simp
  have "(x ^ 3) ^ 7 \<le> d1 ^ 7"
    using assms by (intro power_mono) simp_all
  with assms have s4: "(x ^ 3) ^ 7 \<le> d4" by simp
  have x192: "0 \<le> ((x ^ 3) ^ 8) ^ 8" and x7: "0 \<le> (x ^ 3) ^ 7"
    using assms by simp_all
  from x192 s3 have "0 \<le> d3" by (rule order_trans)
  with s3 s4 x7 have "((x ^ 3) ^ 8) ^ 8 * (x ^ 3) ^ 7 \<le> d3 * d4"
    by (intro mult_mono)
  then show ?thesis by (simp only: power_213_split)
qed

section \<open>The Moon and Spencer value of the luminance 10.08\<close>

lemma pow_1943_lower: "(374629715381 * 5 / (7 * 10 ^ 11) :: real) ^ 500 < (1008 / 100) ^ 213"
proof -
  have "(374629715381 * 5 / (7 * 10 ^ 11) :: real) ^ 500 \<le> 5458751685332208 * 10 ^ 198"
  proof (rule power_500_le)
    show "(0::real) \<le> 374629715381 * 5 / (7 * 10 ^ 11)" by simp
    show "(374629715381 * 5 / (7 * 10 ^ 11) :: real) ^ 4 \<le> 51.2739465956785" by (simp add: power_divide)
    show "(51.2739465956785 :: real) ^ 5 \<le> 354391856.3346756" by (simp add: power_divide)
    show "(354391856.3346756 :: real) ^ 5 \<le> 5590088297770726000000000000000000000000000" by (simp add: power_divide)
    show "(5590088297770726000000000000000000000000000 :: real) ^ 5 \<le> 5458751685332208 * 10 ^ 198" by (simp add: power_divide)
  qed
  also have "(5458751685332208 * 10 ^ 198 :: real) < (4617662259726206 * 10 ^ 177) * 1182146155828324000000"
    by simp
  also have "(4617662259726206 * 10 ^ 177) * 1182146155828324000000 \<le> (1008 / 100 :: real) ^ 213"
  proof (rule power_213_ge)
    show "(0::real) \<le> 1024.192512" by simp
    show "(0::real) \<le> 1210745240888955000000000" by simp
    show "(0::real) \<le> 4617662259726206 * 10 ^ 177" by simp
    show "(0::real) \<le> 1182146155828324000000" by simp
    show "(1024.192512 :: real) \<le> (1008 / 100) ^ 3" by (simp add: power_divide)
    show "(1210745240888955000000000 :: real) \<le> 1024.192512 ^ 8" by (simp add: power_divide)
    show "(4617662259726206 * 10 ^ 177 :: real) \<le> 1210745240888955000000000 ^ 8" by (simp add: power_divide)
    show "(1182146155828324000000 :: real) \<le> 1024.192512 ^ 7" by (simp add: power_divide)
  qed
  finally show ?thesis .
qed

lemma pow_1943_upper: "(1008 / 100 :: real) ^ 213 < (374629715383 * 5 / (7 * 10 ^ 11)) ^ 500"
proof -
  have "(1008 / 100 :: real) ^ 213 \<le> (4617662259726238 * 10 ^ 177) * 1182146155828325000000"
  proof (rule power_213_le)
    show "(0::real) \<le> 1008 / 100" by simp
    show "(1008 / 100 :: real) ^ 3 \<le> 1024.192512" by (simp add: power_divide)
    show "(1024.192512 :: real) ^ 8 \<le> 1210745240888956000000000" by (simp add: power_divide)
    show "(1210745240888956000000000 :: real) ^ 8 \<le> 4617662259726238 * 10 ^ 177" by (simp add: power_divide)
    show "(1024.192512 :: real) ^ 7 \<le> 1182146155828325000000" by (simp add: power_divide)
  qed
  also have "(4617662259726238 * 10 ^ 177) * 1182146155828325000000 < (5458751699903123 * 10 ^ 198 :: real)"
    by simp
  also have "(5458751699903123 * 10 ^ 198 :: real) \<le> (374629715383 * 5 / (7 * 10 ^ 11)) ^ 500"
  proof (rule power_500_ge)
    show "(0::real) \<le> 51.27394659677342" by simp
    show "(0::real) \<le> 354391856.3725144" by simp
    show "(0::real) \<le> 5590088300755024000000000000000000000000000" by simp
    show "(51.27394659677342 :: real) \<le> (374629715383 * 5 / (7 * 10 ^ 11)) ^ 4" by (simp add: power_divide)
    show "(354391856.3725144 :: real) \<le> 51.27394659677342 ^ 5" by (simp add: power_divide)
    show "(5590088300755024000000000000000000000000000 :: real) \<le> 354391856.3725144 ^ 5" by (simp add: power_divide)
    show "(5458751699903123 * 10 ^ 198 :: real) \<le> 5590088300755024000000000000000000000000000 ^ 5" by (simp add: power_divide)
  qed
  finally show ?thesis .
qed

lemma luminance_1943_value:
  "luminance_1943 3.74629715382 =
     10.40898745774320968736201876710554948839665654719527738948678528"
  by (simp add: luminance_1943_def power_divide)

lemma munsell_value_1943_bounds:
  "\<exists>V. munsell_value_1943 10.08 = Inr V \<and> 3.74629715381 < V \<and> V < 3.74629715383"
proof -
  let ?p = "(1008 / 100 :: real) powr (real 213 / real 500)"
  have "374629715381 * 5 / (7 * 10 ^ 11) < ?p"
    by (rule powr_ratio_greater [OF _ _ pow_1943_lower]) simp_all
  then have lo: "3.74629715381 < 1.4 * ?p" by simp
  have "?p < 374629715383 * 5 / (7 * 10 ^ 11)"
    by (rule powr_ratio_less [OF _ _ _ pow_1943_upper]) simp_all
  then have hi: "1.4 * ?p < 3.74629715383" by simp
  have "munsell_value_1943 10.08 = Inr (1.4 * ?p)"
    by (simp add: munsell_value_1943_def float_pow_def)
  with lo hi show ?thesis by blast
qed

text \<open>
  C4, as stated, at its own input: \<open>luminance_1943 3.74629715382\<close> is not 10.08 within
  any tolerance below 0.3289.
\<close>

theorem luminance_1943_not_inverse_at_10_08:
  "0.3289 < \<bar>luminance_1943 3.74629715382 - 10.08\<bar>"
  unfolding luminance_1943_value by simp

text \<open>
  C4, amended. \<open>munsell_value_1943 10.08\<close> returns 3.74629715382 to within \<open>10^-11\<close>, and
  \<open>luminance_1943 3.74629715382\<close> is 10.4089874577 to within \<open>10^-10\<close>, the value the
  function's documentation gives.
\<close>

theorem value_1943_and_luminance_1943_at_10_08:
  "(\<exists>V. munsell_value_1943 10.08 = Inr V \<and> \<bar>V - 3.74629715382\<bar> < 1 / 10 ^ 11)
   \<and> \<bar>luminance_1943 3.74629715382 - 10.4089874577\<bar> < 1 / 10 ^ 10"
proof
  from munsell_value_1943_bounds obtain V
    where V: "munsell_value_1943 10.08 = Inr V" "3.74629715381 < V" "V < 3.74629715383"
    by blast
  from V(2) have "- (1 / 10 ^ 11) < V - 3.74629715382"
    by simp
  moreover from V(3) have "V - 3.74629715382 < 1 / 10 ^ 11"
    by simp
  ultimately have "\<bar>V - 3.74629715382\<bar> < 1 / 10 ^ 11"
    by (simp only: abs_less_iff) simp
  with V(1) show "\<exists>V. munsell_value_1943 10.08 = Inr V \<and> \<bar>V - 3.74629715382\<bar> < 1 / 10 ^ 11"
    by blast
  show "\<bar>luminance_1943 3.74629715382 - 10.4089874577\<bar> < 1 / 10 ^ 10"
    unfolding luminance_1943_value by simp
qed

section \<open>The range of the Munsell value functions\<close>

lemma quadratic_1933_le_100:
  fixes Y :: real
  assumes "0 \<le> Y" "Y \<le> 100"
  shows "1.4742 * Y - 0.004743 * (Y * Y) \<le> 100"
proof -
  have "100 * 100 - Y * Y = (100 - Y) * (100 + Y)"
    by (simp add: algebra_simps)
  also have "\<dots> \<le> (100 - Y) * 200"
    using assms by (intro mult_left_mono) simp_all
  finally have "100 * 100 - Y * Y \<le> 200 * (100 - Y)"
    by simp
  with assms show ?thesis by simp
qed

lemma powr_426_at_100: "(100::real) powr 0.426 \<le> 50 / 7"
proof -
  have "(100::real) powr 0.426 \<le> 100 powr (real 26 / real 61)"
    by (intro powr_mono) simp_all
  also have "\<dots> \<le> 50 / 7"
    by (rule powr_ratio_le) (simp_all add: power_divide)
  finally show ?thesis .
qed

lemma powr_343_at_100: "(100::real) powr 0.343 \<le> 11520 / 2357"
proof -
  have "(100::real) powr 0.343 \<le> 100 powr (real 11 / real 32)"
    by (intro powr_mono) simp_all
  also have "\<dots> \<le> 11520 / 2357"
    by (rule powr_ratio_le) (simp_all add: power_divide)
  finally show ?thesis .
qed

lemma cube_root_at_100: "(100::real) powr (1 / 3) \<le> 11636 / 2468"
proof -
  have "(100::real) powr (real 1 / real 3) \<le> 11636 / 2468"
    by (rule powr_ratio_le) (simp_all add: power_divide)
  then show ?thesis by simp
qed

lemma powr_343_at_03: "1520 / 2357 \<le> (0.3::real) powr 0.343"
proof -
  have "1520 / 2357 \<le> (0.3::real) powr (real 11 / real 32)"
    by (rule powr_ratio_ge) (simp_all add: power_divide)
  also have "\<dots> \<le> 0.3 powr 0.343"
    by (intro powr_mono') simp_all
  finally show ?thesis .
qed

lemma cube_root_at_03: "1636 / 2468 \<le> (0.3::real) powr (1 / 3)"
proof -
  have "1636 / 2468 \<le> (0.3::real) powr (real 1 / real 3)"
    by (rule powr_ratio_ge) (simp_all add: power_divide)
  then show ?thesis by simp
qed

lemma munsell_value_1920_range:
  assumes "0 \<le> Y" "Y \<le> 100"
  shows "\<exists>V. munsell_value_1920 Y = Inr V \<and> 0 \<le> V \<and> V \<le> 10"
proof -
  from assms have "sqrt (Y / 100) \<le> sqrt 1"
    by (simp only: real_sqrt_le_iff)
  then have "10 * sqrt (Y / 100) \<le> 10" by simp
  moreover from assms have "0 \<le> 10 * sqrt (Y / 100)" by simp
  moreover from assms have "munsell_value_1920 Y = Inr (10 * sqrt (Y / 100))"
    by (simp add: munsell_value_1920_def math_sqrt_def)
  ultimately show ?thesis by blast
qed

lemma munsell_value_1933_range:
  assumes "0 \<le> Y" "Y \<le> 100"
  shows "\<exists>V. munsell_value_1933 Y = Inr V \<and> 0 \<le> V \<and> V \<le> 10"
proof -
  let ?q = "1.4742 * Y - 0.004743 * (Y * Y)"
  have nn: "0 \<le> ?q" by (rule quadratic_1933_nonneg [OF assms])
  have "sqrt ?q \<le> sqrt 100"
    using quadratic_1933_le_100 [OF assms] by (simp only: real_sqrt_le_iff)
  then have "sqrt ?q \<le> 10" by simp
  moreover from nn have "0 \<le> sqrt ?q" by simp
  moreover from nn have "munsell_value_1933 Y = Inr (sqrt ?q)"
    by (simp add: munsell_value_1933_def math_sqrt_def not_less [symmetric])
  ultimately show ?thesis by blast
qed

lemma munsell_value_1943_range:
  assumes "0 \<le> Y" "Y \<le> 100"
  shows "\<exists>V. munsell_value_1943 Y = Inr V \<and> 0 \<le> V \<and> V \<le> 10"
proof -
  from assms have "Y powr 0.426 \<le> 100 powr 0.426"
    by (intro powr_mono2) simp_all
  with powr_426_at_100 have "Y powr 0.426 \<le> 50 / 7" by (rule order_trans [rotated])
  then have "1.4 * Y powr 0.426 \<le> 10" by simp
  moreover have "0 \<le> 1.4 * Y powr 0.426" by simp
  moreover from assms have "munsell_value_1943 Y = Inr (1.4 * Y powr 0.426)"
    by (simp add: munsell_value_1943_def float_pow_def)
  ultimately show ?thesis by blast
qed

lemma munsell_value_1944_range:
  assumes "0 \<le> Y" "Y \<le> 100"
  shows "\<exists>V. munsell_value_1944 Y = Inr V \<and> - 1.52 \<le> V \<and> V \<le> 10 \<and> (0.3 \<le> Y \<longrightarrow> 0 \<le> V)"
proof -
  let ?V = "2.357 * Y powr 0.343 - 1.52"
  from assms have "Y powr 0.343 \<le> 100 powr 0.343"
    by (intro powr_mono2) simp_all
  with powr_343_at_100 have "Y powr 0.343 \<le> 11520 / 2357" by (rule order_trans [rotated])
  then have hi: "?V \<le> 10" by simp
  have "0 \<le> Y powr 0.343" by simp
  then have lo: "- 1.52 \<le> ?V" by simp
  have pos: "0 \<le> ?V" if "0.3 \<le> Y"
  proof -
    from that have "0.3 powr 0.343 \<le> Y powr 0.343"
      by (intro powr_mono2) simp_all
    with powr_343_at_03 have "1520 / 2357 \<le> Y powr 0.343" by (rule order_trans)
    then show ?thesis by simp
  qed
  from assms have "munsell_value_1944 Y = Inr ?V"
    by (simp add: munsell_value_1944_def float_pow_def)
  with lo hi pos show ?thesis by blast
qed

lemma munsell_value_1955_range:
  assumes "0 \<le> Y" "Y \<le> 100"
  shows "\<exists>V. munsell_value_1955 Y = Inr V \<and> - 1.636 \<le> V \<and> V \<le> 10 \<and> (0.3 \<le> Y \<longrightarrow> 0 \<le> V)"
proof -
  let ?V = "2.468 * Y powr (1 / 3) - 1.636"
  from assms have "Y powr (1 / 3) \<le> 100 powr (1 / 3)"
    by (intro powr_mono2) simp_all
  with cube_root_at_100 have "Y powr (1 / 3) \<le> 11636 / 2468" by (rule order_trans [rotated])
  then have hi: "?V \<le> 10" by simp
  have "0 \<le> Y powr (1 / 3)" by simp
  then have lo: "- 1.636 \<le> ?V" by simp
  have pos: "0 \<le> ?V" if "0.3 \<le> Y"
  proof -
    from that have "0.3 powr (1 / 3) \<le> Y powr (1 / 3)"
      by (intro powr_mono2) simp_all
    with cube_root_at_03 have "1636 / 2468 \<le> Y powr (1 / 3)" by (rule order_trans)
    then show ?thesis by simp
  qed
  from assms have "munsell_value_1955 Y = Inr ?V"
    by (simp add: munsell_value_1955_def float_pow_def)
  with lo hi pos show ?thesis by blast
qed

text \<open>
  C8. At \<open>Y = 0\<close>, in the documented domain [0, 100], the 1944 and 1955 formulas return
  \<open>-1.52\<close> and \<open>-1.636\<close>: values below the codomain [0, 10] that the claim, and the
  documentation of both functions, state. The 1920, 1933 and 1943 functions stay in [0, 10]
  on the whole domain (the three lemmas above), and the 1944 and 1955 functions do from
  \<open>Y = 0.3\<close> on.
\<close>

theorem munsell_value_negative_at_zero:
  "(0::real) \<le> 0 \<and> (0::real) \<le> 100
   \<and> munsell_value_1944 0 = Inr (- 1.52) \<and> munsell_value_1955 0 = Inr (- 1.636)
   \<and> \<not> (0::real) \<le> - 1.52 \<and> \<not> (0::real) \<le> - 1.636"
  by (simp add: munsell_value_1944_def munsell_value_1955_def float_pow_def)

section \<open>Continuity of CIE 1976 lightness at the knee\<close>

lemma lightness_1976_total:
  assumes "Yn \<noteq> 0"
  shows "lightness_1976 Y Yn =
           Inr (if Y / Yn \<le> CIE_E then CIE_K * (Y / Yn) else 116 * (Y / Yn) powr (1 / 3) - 16)"
proof (cases "Y / Yn \<le> CIE_E")
  case True
  with assms show ?thesis
    by (simp add: lightness_1976_def float_div_def)
next
  case False
  have "0 < CIE_E" by (simp add: CIE_E_def)
  with False have "\<not> Y / Yn < 0" by simp
  with False assms show ?thesis
    by (simp add: lightness_1976_def float_div_def float_pow_def)
qed

lemma knee_function_isCont:
  "isCont (\<lambda>r. if r \<le> CIE_E then CIE_K * r else 116 * r powr (1 / 3) - 16) CIE_E"
proof (rule isCont_If_ge)
  show "continuous (at_left CIE_E) ((*) CIE_K)"
    by (intro continuous_intros)
  have pos: "CIE_E \<noteq> 0" by (simp add: CIE_E_def)
  have "isCont (\<lambda>r. 116 * r powr (1 / 3) - 16) CIE_E"
    using pos by (intro continuous_intros) simp_all
  then have "((\<lambda>r. 116 * r powr (1 / 3) - 16) \<longlongrightarrow> 116 * CIE_E powr (1 / 3) - 16) (at CIE_E)"
    by (simp only: isCont_def)
  then have "((\<lambda>r. 116 * r powr (1 / 3) - 16) \<longlongrightarrow> 116 * CIE_E powr (1 / 3) - 16) (at_right CIE_E)"
    by (rule filterlim_mono [OF _ order_refl at_le]) simp
  moreover have "116 * CIE_E powr (1 / 3) - 16 = CIE_K * CIE_E"
    by (simp add: CIE_E_cube_root) (simp add: CIE_K_def CIE_E_def)
  ultimately show "((\<lambda>r. 116 * r powr (1 / 3) - 16) \<longlongrightarrow> CIE_K * CIE_E) (at_right CIE_E)"
    by simp
qed

text \<open>
  C6. With \<open>CIE_E = 216/24389\<close> and \<open>CIE_K = 24389/27\<close>, the linear branch
  \<open>CIE_K * ratio\<close> and the power branch \<open>116 * ratio^(1/3) - 16\<close> of \<open>lightness_1976\<close>
  take the same value, exactly 8, at \<open>ratio = CIE_E\<close>; so, for every reference white
  \<open>Yn > 0\<close>, \<open>lightness_1976\<close> returns 8 at the knee \<open>Y / Yn = CIE_E\<close> and is
  continuous in \<open>Y\<close> there.
\<close>

theorem lightness_1976_continuous_at_knee:
  assumes "0 < Yn"
  shows "CIE_K * CIE_E = 8
       \<and> 116 * CIE_E powr (1 / 3) - 16 = 8
       \<and> lightness_1976 (CIE_E * Yn) Yn = Inr 8
       \<and> isCont (\<lambda>Y. projr (lightness_1976 Y Yn)) (CIE_E * Yn)"
proof (intro conjI)
  from assms have nz: "Yn \<noteq> 0" by simp
  show lin: "CIE_K * CIE_E = 8"
    by (simp add: CIE_K_def CIE_E_def)
  show "116 * CIE_E powr (1 / 3) - 16 = 8"
    by (simp add: CIE_E_cube_root)
  from nz have at_knee: "CIE_E * Yn / Yn = CIE_E" by simp
  show "lightness_1976 (CIE_E * Yn) Yn = Inr 8"
    by (simp only: lightness_1976_total [OF nz] at_knee order_refl if_True lin)
  let ?knee = "\<lambda>r. if r \<le> CIE_E then CIE_K * r else 116 * r powr (1 / 3) - 16"
  have "isCont (\<lambda>Y. Y / Yn) (CIE_E * Yn)"
    using nz by (intro continuous_intros) simp_all
  moreover have "isCont ?knee (CIE_E * Yn / Yn)"
    by (simp only: at_knee knee_function_isCont)
  ultimately have "isCont (\<lambda>Y. ?knee (Y / Yn)) (CIE_E * Yn)"
    by (rule isCont_o2)
  moreover have "(\<lambda>Y. projr (lightness_1976 Y Yn)) = (\<lambda>Y. ?knee (Y / Yn))"
    by (rule ext) (simp only: lightness_1976_total [OF nz] sum.sel)
  ultimately show "isCont (\<lambda>Y. projr (lightness_1976 Y Yn)) (CIE_E * Yn)"
    by simp
qed

theorem lightness_1976_continuous_at_knee_witness:
  "(0::real) < 100
   \<and> lightness_1976 (CIE_E * 100) 100 = Inr 8
   \<and> isCont (\<lambda>Y. projr (lightness_1976 Y 100)) (CIE_E * 100)"
proof -
  have a: "(0::real) < 100" by simp
  from lightness_1976_continuous_at_knee [OF a] a show ?thesis by blast
qed

section \<open>Rounding to a double\<close>

lemma round_half_even_near:
  assumes "\<bar>y - of_int m\<bar> < 1 / 2"
  shows "round_half_even y = m"
proof (cases "of_int m \<le> y")
  case True
  with assms have "\<lfloor>y\<rfloor> = m"
    by (intro floor_unique) (simp_all add: abs_less_iff)
  with assms True show ?thesis
    by (simp add: round_half_even_def Let_def abs_less_iff)
next
  case False
  with assms have "\<lfloor>y\<rfloor> = m - 1"
    by (intro floor_unique) (simp_all add: abs_less_iff)
  with assms False show ?thesis
    by (simp add: round_half_even_def Let_def abs_less_iff)
qed

lemma ulp_exponent_normal:
  assumes "2 powi e \<le> \<bar>x\<bar>" and "\<bar>x\<bar> < 2 powi (e + 1)" and "- 1022 \<le> e"
  shows "ulp_exponent x = e - 52"
proof -
  have pos: "0 < \<bar>x\<bar>"
    using assms(1) by (rule less_le_trans [rotated]) simp
  have "(2::real) powr real_of_int e = 2 powi e" "(2::real) powr (real_of_int e + 1) = 2 powi (e + 1)"
    using powr_real_of_int' [of "2::real" e] powr_real_of_int' [of "2::real" "e + 1"]
    by (simp_all add: add.commute)
  with assms have "\<lfloor>log 2 \<bar>x\<bar>\<rfloor> = e"
    using pos by (simp add: floor_log_eq_powr_iff)
  with assms(3) show ?thesis
    by (simp add: ulp_exponent_def)
qed

lemma round_double_normal:
  assumes "2 powi e \<le> \<bar>x\<bar>" and "\<bar>x\<bar> < 2 powi (e + 1)" and "- 1022 \<le> e" and "e \<le> 1022"
    and "round_half_even (x / 2 powi (e - 52)) = m"
  shows "round_double x = Finite (2 powi (e - 52) * of_int m)"
proof -
  have "(2::real) powi (e + 1) \<le> 2 powi 1023"
    using assms(4) by (intro power_int_increasing) simp_all
  also have "\<dots> < 2 ^ 1024 - 2 ^ 970"
    by simp
  finally have "\<not> 2 ^ 1024 - 2 ^ 970 \<le> \<bar>x\<bar>"
    using assms(2) by simp
  moreover have "x \<noteq> 0"
  proof
    assume "x = 0"
    with assms(1) have "(2::real) powi e \<le> 0" by simp
    moreover have "(0::real) < 2 powi e" by simp
    ultimately show False by simp
  qed
  moreover note ulp_exponent_normal [OF assms(1-3)] assms(5)
  ultimately show ?thesis
    by (simp add: round_double_def Let_def)
qed

lemma round_double_sqrt:
  assumes "(2 powi e)\<^sup>2 \<le> d" and "d < (2 powi (e + 1))\<^sup>2" and "- 1022 \<le> e" and "e \<le> 1022"
    and "1 \<le> m"
    and "((of_int m - 1 / 2) * 2 powi (e - 52))\<^sup>2 < d"
    and "d < ((of_int m + 1 / 2) * 2 powi (e - 52))\<^sup>2"
  shows "round_double (sqrt d) = Finite (2 powi (e - 52) * of_int m)"
proof (rule round_double_normal)
  have u: "(0::real) < 2 powi (e - 52)" by simp
  have d: "0 \<le> d"
    using assms(1) by (rule order_trans [rotated]) simp
  show "2 powi e \<le> \<bar>sqrt d\<bar>"
    using assms(1) d by (simp add: real_le_rsqrt)
  show "\<bar>sqrt d\<bar> < 2 powi (e + 1)"
    using assms(2) d by (simp add: real_less_lsqrt)
  show "- 1022 \<le> e" "e \<le> 1022" by fact+
  have lo: "(of_int m - 1 / 2) * 2 powi (e - 52) < sqrt d"
    using assms(6) by (rule real_less_rsqrt)
  have "(0::real) \<le> (of_int m + 1 / 2) * 2 powi (e - 52)"
    using assms(5) by simp
  with assms(7) have hi: "sqrt d < (of_int m + 1 / 2) * 2 powi (e - 52)"
    by (intro real_less_lsqrt)
  from lo u have "of_int m - 1 / 2 < sqrt d / 2 powi (e - 52)"
    by (simp only: pos_less_divide_eq)
  moreover from hi u have "sqrt d / 2 powi (e - 52) < of_int m + 1 / 2"
    by (simp only: pos_divide_less_eq)
  ultimately have "\<bar>sqrt d / 2 powi (e - 52) - of_int m\<bar> < 1 / 2"
    by linarith
  then show "round_half_even (sqrt d / 2 powi (e - 52)) = m"
    by (rule round_half_even_near)
qed


section \<open>Monotonicity is lost on doubles\<close>

text \<open>
  The 1933 formula at two pairs of neighbouring doubles: \<open>100 - 2^-46\<close>, printed
  99.99999999999999, with 100.0; and 0.94 with the next double above it, printed
  0.9400000000000001. Each lemma is one rounded operation of the computation.
\<close>

lemma literal_1_4742: "round_double (1.4742) = Finite (6639206570669585 / 2 ^ 52)"
proof -
  have "round_double (1.4742) = Finite (2 powi (0 - 52) * of_int (6639206570669585))"
    by (rule round_double_normal) (simp_all add: round_half_even_def Let_def)
  then show ?thesis by simp
qed

lemma literal_0_004743: "round_double (0.004743) = Finite (5468306696350275 / 2 ^ 60)"
proof -
  have "round_double (0.004743) = Finite (2 powi (- 8 - 52) * of_int (5468306696350275))"
    by (rule round_double_normal) (simp_all add: round_half_even_def Let_def)
  then show ?thesis by simp
qed

lemma square_below_100: "round_double ((7036874417766399 / 2 ^ 46) * (7036874417766399 / 2 ^ 46)) = Finite (2748779069439999 / 2 ^ 38)"
proof -
  have "round_double ((7036874417766399 / 2 ^ 46) * (7036874417766399 / 2 ^ 46)) = Finite (2 powi (13 - 52) * of_int (5497558138879998))"
    by (rule round_double_normal) (simp_all add: round_half_even_def Let_def)
  then show ?thesis by simp
qed

lemma linear_below_100: "round_double ((6639206570669585 / 2 ^ 52) * (7036874417766399 / 2 ^ 46)) = Finite (5186880133335613 / 2 ^ 45)"
proof -
  have "round_double ((6639206570669585 / 2 ^ 52) * (7036874417766399 / 2 ^ 46)) = Finite (2 powi (7 - 52) * of_int (5186880133335613))"
    by (rule round_double_normal) (simp_all add: round_half_even_def Let_def)
  then show ?thesis by simp
qed

lemma scaled_square_below_100: "round_double ((5468306696350275 / 2 ^ 60) * (2748779069439999 / 2 ^ 38)) = Finite (1668794768173301 / 2 ^ 45)"
proof -
  have "round_double ((5468306696350275 / 2 ^ 60) * (2748779069439999 / 2 ^ 38)) = Finite (2 powi (5 - 52) * of_int (6675179072693204))"
    by (rule round_double_normal) (simp_all add: round_half_even_def Let_def)
  then show ?thesis by simp
qed

lemma difference_below_100: "round_double ((5186880133335613 / 2 ^ 45) + - (1668794768173301 / 2 ^ 45)) = Finite (439760670645289 / 2 ^ 42)"
proof -
  have "round_double ((5186880133335613 / 2 ^ 45) + - (1668794768173301 / 2 ^ 45)) = Finite (2 powi (6 - 52) * of_int (7036170730324624))"
    by (rule round_double_normal) (simp_all add: round_half_even_def Let_def)
  then show ?thesis by simp
qed

lemma root_below_100: "round_double (sqrt (439760670645289 / 2 ^ 42)) = Finite (5629218052199183 / 2 ^ 49)"
proof -
  have "round_double (sqrt (439760670645289 / 2 ^ 42)) = Finite (2 powi (3 - 52) * of_int (5629218052199183))"
    by (rule round_double_sqrt) (simp_all add: power_divide)
  then show ?thesis by simp
qed

lemma quadratic_below_100: "quadratic_1933_double (Finite (7036874417766399 / 2 ^ 46)) = Finite (439760670645289 / 2 ^ 42)"
  by (simp only: quadratic_1933_double_def sub_double_def neg_double.simps add_double.simps
      mul_double.simps literal_1_4742 literal_0_004743 square_below_100 linear_below_100 scaled_square_below_100
      difference_below_100)

lemma value_below_100: "munsell_value_1933_double (Finite (7036874417766399 / 2 ^ 46)) = Inr (Finite (5629218052199183 / 2 ^ 49))"
proof -
  have "\<not> (439760670645289 / 2 ^ 42 :: real) < 0" by simp
  then show ?thesis
    by (simp only: munsell_value_1933_double_def quadratic_below_100 sqrt_double_def double.case
        if_False root_below_100)
qed

lemma square_at_100: "round_double (100 * 100) = Finite (10000)"
proof -
  have "round_double (100 * 100) = Finite (2 powi (13 - 52) * of_int (5497558138880000))"
    by (rule round_double_normal) (simp_all add: round_half_even_def Let_def)
  then show ?thesis by simp
qed

lemma linear_at_100: "round_double ((6639206570669585 / 2 ^ 52) * 100) = Finite (5186880133335613 / 2 ^ 45)"
proof -
  have "round_double ((6639206570669585 / 2 ^ 52) * 100) = Finite (2 powi (7 - 52) * of_int (5186880133335613))"
    by (rule round_double_normal) (simp_all add: round_half_even_def Let_def)
  then show ?thesis by simp
qed

lemma scaled_square_at_100: "round_double ((5468306696350275 / 2 ^ 60) * 10000) = Finite (6675179072693207 / 2 ^ 47)"
proof -
  have "round_double ((5468306696350275 / 2 ^ 60) * 10000) = Finite (2 powi (5 - 52) * of_int (6675179072693207))"
    by (rule round_double_normal) (simp_all add: round_half_even_def Let_def)
  then show ?thesis by simp
qed

lemma difference_at_100: "round_double ((5186880133335613 / 2 ^ 45) + - (6675179072693207 / 2 ^ 47)) = Finite (3518085365162311 / 2 ^ 45)"
proof -
  have "round_double ((5186880133335613 / 2 ^ 45) + - (6675179072693207 / 2 ^ 47)) = Finite (2 powi (6 - 52) * of_int (7036170730324622))"
    by (rule round_double_normal) (simp_all add: round_half_even_def Let_def)
  then show ?thesis by simp
qed

lemma root_at_100: "round_double (sqrt (3518085365162311 / 2 ^ 45)) = Finite (5629218052199183 / 2 ^ 49)"
proof -
  have "round_double (sqrt (3518085365162311 / 2 ^ 45)) = Finite (2 powi (3 - 52) * of_int (5629218052199183))"
    by (rule round_double_sqrt) (simp_all add: power_divide)
  then show ?thesis by simp
qed

lemma quadratic_at_100: "quadratic_1933_double (Finite (100)) = Finite (3518085365162311 / 2 ^ 45)"
  by (simp only: quadratic_1933_double_def sub_double_def neg_double.simps add_double.simps
      mul_double.simps literal_1_4742 literal_0_004743 square_at_100 linear_at_100 scaled_square_at_100
      difference_at_100)

lemma value_at_100: "munsell_value_1933_double (Finite (100)) = Inr (Finite (5629218052199183 / 2 ^ 49))"
proof -
  have "\<not> (3518085365162311 / 2 ^ 45 :: real) < 0" by simp
  then show ?thesis
    by (simp only: munsell_value_1933_double_def quadratic_at_100 sqrt_double_def double.case
        if_False root_at_100)
qed

lemma square_at_0_94: "round_double ((2116691824864133 / 2 ^ 51) * (2116691824864133 / 2 ^ 51)) = Finite (1989690315372285 / 2 ^ 51)"
proof -
  have "round_double ((2116691824864133 / 2 ^ 51) * (2116691824864133 / 2 ^ 51)) = Finite (2 powi (- 1 - 52) * of_int (7958761261489140))"
    by (rule round_double_normal) (simp_all add: round_half_even_def Let_def)
  then show ?thesis by simp
qed

lemma linear_at_0_94: "round_double ((6639206570669585 / 2 ^ 52) * (2116691824864133 / 2 ^ 51)) = Finite (3120427088214705 / 2 ^ 51)"
proof -
  have "round_double ((6639206570669585 / 2 ^ 52) * (2116691824864133 / 2 ^ 51)) = Finite (2 powi (0 - 52) * of_int (6240854176429410))"
    by (rule round_double_normal) (simp_all add: round_half_even_def Let_def)
  then show ?thesis by simp
qed

lemma scaled_square_at_0_94: "round_double ((5468306696350275 / 2 ^ 60) * (1989690315372285 / 2 ^ 51)) = Finite (4831795796895103 / 2 ^ 60)"
proof -
  have "round_double ((5468306696350275 / 2 ^ 60) * (1989690315372285 / 2 ^ 51)) = Finite (2 powi (- 8 - 52) * of_int (4831795796895103))"
    by (rule round_double_normal) (simp_all add: round_half_even_def Let_def)
  then show ?thesis by simp
qed

lemma difference_at_0_94: "round_double ((3120427088214705 / 2 ^ 51) + - (4831795796895103 / 2 ^ 60)) = Finite (6221979974097789 / 2 ^ 52)"
proof -
  have "round_double ((3120427088214705 / 2 ^ 51) + - (4831795796895103 / 2 ^ 60)) = Finite (2 powi (0 - 52) * of_int (6221979974097789))"
    by (rule round_double_normal) (simp_all add: round_half_even_def Let_def)
  then show ?thesis by simp
qed

lemma root_at_0_94: "round_double (sqrt (6221979974097789 / 2 ^ 52)) = Finite (5293515532503281 / 2 ^ 52)"
proof -
  have "round_double (sqrt (6221979974097789 / 2 ^ 52)) = Finite (2 powi (0 - 52) * of_int (5293515532503281))"
    by (rule round_double_sqrt) (simp_all add: power_divide)
  then show ?thesis by simp
qed

lemma quadratic_at_0_94: "quadratic_1933_double (Finite (2116691824864133 / 2 ^ 51)) = Finite (6221979974097789 / 2 ^ 52)"
  by (simp only: quadratic_1933_double_def sub_double_def neg_double.simps add_double.simps
      mul_double.simps literal_1_4742 literal_0_004743 square_at_0_94 linear_at_0_94 scaled_square_at_0_94
      difference_at_0_94)

lemma value_at_0_94: "munsell_value_1933_double (Finite (2116691824864133 / 2 ^ 51)) = Inr (Finite (5293515532503281 / 2 ^ 52))"
proof -
  have "\<not> (6221979974097789 / 2 ^ 52 :: real) < 0" by simp
  then show ?thesis
    by (simp only: munsell_value_1933_double_def quadratic_at_0_94 sqrt_double_def double.case
        if_False root_at_0_94)
qed

lemma square_above_0_94: "round_double ((8466767299456533 / 2 ^ 53) * (8466767299456533 / 2 ^ 53)) = Finite (3979380630744571 / 2 ^ 52)"
proof -
  have "round_double ((8466767299456533 / 2 ^ 53) * (8466767299456533 / 2 ^ 53)) = Finite (2 powi (- 1 - 52) * of_int (7958761261489142))"
    by (rule round_double_normal) (simp_all add: round_half_even_def Let_def)
  then show ?thesis by simp
qed

lemma linear_above_0_94: "round_double ((6639206570669585 / 2 ^ 52) * (8466767299456533 / 2 ^ 53)) = Finite (3120427088214705 / 2 ^ 51)"
proof -
  have "round_double ((6639206570669585 / 2 ^ 52) * (8466767299456533 / 2 ^ 53)) = Finite (2 powi (0 - 52) * of_int (6240854176429410))"
    by (rule round_double_normal) (simp_all add: round_half_even_def Let_def)
  then show ?thesis by simp
qed

lemma scaled_square_above_0_94: "round_double ((5468306696350275 / 2 ^ 60) * (3979380630744571 / 2 ^ 52)) = Finite (37748404663243 / 2 ^ 53)"
proof -
  have "round_double ((5468306696350275 / 2 ^ 60) * (3979380630744571 / 2 ^ 52)) = Finite (2 powi (- 8 - 52) * of_int (4831795796895104))"
    by (rule round_double_normal) (simp_all add: round_half_even_def Let_def)
  then show ?thesis by simp
qed

lemma difference_above_0_94: "round_double ((3120427088214705 / 2 ^ 51) + - (37748404663243 / 2 ^ 53)) = Finite (1555494993524447 / 2 ^ 50)"
proof -
  have "round_double ((3120427088214705 / 2 ^ 51) + - (37748404663243 / 2 ^ 53)) = Finite (2 powi (0 - 52) * of_int (6221979974097788))"
    by (rule round_double_normal) (simp_all add: round_half_even_def Let_def)
  then show ?thesis by simp
qed

lemma root_above_0_94: "round_double (sqrt (1555494993524447 / 2 ^ 50)) = Finite (330844720781455 / 2 ^ 48)"
proof -
  have "round_double (sqrt (1555494993524447 / 2 ^ 50)) = Finite (2 powi (0 - 52) * of_int (5293515532503280))"
    by (rule round_double_sqrt) (simp_all add: power_divide)
  then show ?thesis by simp
qed

lemma quadratic_above_0_94: "quadratic_1933_double (Finite (8466767299456533 / 2 ^ 53)) = Finite (1555494993524447 / 2 ^ 50)"
  by (simp only: quadratic_1933_double_def sub_double_def neg_double.simps add_double.simps
      mul_double.simps literal_1_4742 literal_0_004743 square_above_0_94 linear_above_0_94 scaled_square_above_0_94
      difference_above_0_94)

lemma value_above_0_94: "munsell_value_1933_double (Finite (8466767299456533 / 2 ^ 53)) = Inr (Finite (330844720781455 / 2 ^ 48))"
proof -
  have "\<not> (1555494993524447 / 2 ^ 50 :: real) < 0" by simp
  then show ?thesis
    by (simp only: munsell_value_1933_double_def quadratic_above_0_94 sqrt_double_def double.case
        if_False root_above_0_94)
qed

text \<open>
  C10, as stated, on doubles. From \<open>Y1 = 99.99999999999999\<close> to \<open>Y2 = 100.0\<close> the quadratic
  under the square root falls, from 99.99000000000001 to 99.98999999999998, and
  \<open>munsell_value_1933\<close> returns the same value at both; from \<open>Y1 = 0.94\<close> to
  \<open>Y2 = 0.9400000000000001\<close> the value of \<open>munsell_value_1933\<close> falls, from
  1.1753965650792078 to 1.1753965650792075.
\<close>

theorem forward_maps_not_increasing_on_doubles:
  "(0::real) < 7036874417766399 / 2 ^ 46 \<and> (7036874417766399 / 2 ^ 46 :: real) < 100 \<and> (100::real) \<le> 100
   \<and> quadratic_1933_double (Finite (7036874417766399 / 2 ^ 46)) = Finite (439760670645289 / 2 ^ 42)
   \<and> quadratic_1933_double (Finite 100) = Finite (3518085365162311 / 2 ^ 45)
   \<and> (3518085365162311 / 2 ^ 45 :: real) < 439760670645289 / 2 ^ 42
   \<and> munsell_value_1933_double (Finite (7036874417766399 / 2 ^ 46)) = Inr (Finite (5629218052199183 / 2 ^ 49))
   \<and> munsell_value_1933_double (Finite 100) = Inr (Finite (5629218052199183 / 2 ^ 49))
   \<and> (0::real) < 2116691824864133 / 2 ^ 51 \<and> (2116691824864133 / 2 ^ 51 :: real) < 8466767299456533 / 2 ^ 53 \<and> (8466767299456533 / 2 ^ 53 :: real) \<le> 100
   \<and> munsell_value_1933_double (Finite (2116691824864133 / 2 ^ 51)) = Inr (Finite (5293515532503281 / 2 ^ 52))
   \<and> munsell_value_1933_double (Finite (8466767299456533 / 2 ^ 53)) = Inr (Finite (330844720781455 / 2 ^ 48))
   \<and> (330844720781455 / 2 ^ 48 :: real) < 5293515532503281 / 2 ^ 52"
proof -
  have "(0::real) < 7036874417766399 / 2 ^ 46 \<and> (7036874417766399 / 2 ^ 46 :: real) < 100 \<and> (100::real) \<le> 100
     \<and> (3518085365162311 / 2 ^ 45 :: real) < 439760670645289 / 2 ^ 42
     \<and> (0::real) < 2116691824864133 / 2 ^ 51 \<and> (2116691824864133 / 2 ^ 51 :: real) < 8466767299456533 / 2 ^ 53 \<and> (8466767299456533 / 2 ^ 53 :: real) \<le> 100
     \<and> (330844720781455 / 2 ^ 48 :: real) < 5293515532503281 / 2 ^ 52"
    by simp
  with quadratic_below_100 quadratic_at_100 value_below_100 value_at_100
    value_at_0_94 value_above_0_94
  show ?thesis by (simp only: simp_thms)
qed


section \<open>The round trip overflows on doubles\<close>








end
